theory Spec2Isabelle
  imports Main "HOL-Library.Word"
begin

section \<open>The PDF splitter of PDFExcel.py\<close>

text \<open>
  A shallow embedding of \<^verbatim>\<open>PDFSplitterApp\<close> (src/PDFExcel.py): the name file reader
  \<^verbatim>\<open>read_name_file\<close>, the splitting loop \<^verbatim>\<open>split_pdf\<close> with its inline file name
  cleaning, and the driver \<^verbatim>\<open>start_split\<close>.

  Python strings are sequences of Unicode code points, so a string is a list of natural
  numbers; the full-width parentheses of the source are the code points 65288 and 65289.
  File contents are lists of bytes. The file system is a map from path strings to
  contents, compared as strings (a case-sensitive file system).
\<close>

subsection \<open>Strings, bytes and the environment the program calls\<close>

type_synonym ustring = "nat list"
type_synonym bytes = "8 word list"
type_synonym filesystem = "ustring \<rightharpoonup> bytes"

definition ustr :: "string \<Rightarrow> ustring" where
  "ustr s = map of_char s"

text \<open>
  A cell of a parsed table: pandas stores an empty cell as the missing value NaN; \<open>Val s\<close>
  is any other value, \<open>s\<close> being the text \<^verbatim>\<open>str\<close> gives for it.
\<close>

datatype cell = NaN | Val ustring

record dataframe =
  columns :: "cell list"
  rows :: "cell list list"

text \<open>What a codec does with a byte string.\<close>

datatype decoded = Decoded ustring | UnicodeDecodeError | CodecError string

text \<open>
  The program's libraries, as far as their behaviour is data and not under src/: the
  Unicode tables behind \<^verbatim>\<open>str.isalnum\<close>, \<^verbatim>\<open>str.strip\<close> and \<^verbatim>\<open>str.lower\<close> beyond ASCII,
  chardet's guess, the codecs other than latin1, the tokenisers of pandas (the rows of
  the table, the first row included, or the text of the exception raised) and PyPDF2's
  reader and writer (\<open>pdf_single p\<close> is the file a fresh \<^verbatim>\<open>PdfWriter\<close> writes after
  \<^verbatim>\<open>add_page(p)\<close>). With them comes the operating system's answer to writing a file:
  \<open>write_failure fs path content\<close> is \<open>None\<close> when \<^verbatim>\<open>open(path, 'wb')\<close> and the write
  succeed on the file system \<open>fs\<close>, and \<open>Some fs'\<close> when one of them raises (no such folder,
  no permission, a name the file system refuses, a full disk), \<open>fs'\<close> being the file system
  the failure leaves. The program is modelled for every such environment.
\<close>

record 'p lib =
  u_isalnum :: "nat \<Rightarrow> bool"
  u_isspace :: "nat \<Rightarrow> bool"
  u_lower :: "nat \<Rightarrow> ustring"
  chardet_detect :: "bytes \<Rightarrow> string option"
  codec_decode :: "string \<Rightarrow> bytes \<Rightarrow> decoded"
  csv_table :: "ustring \<Rightarrow> string + cell list list"
  excel_table :: "bytes \<Rightarrow> string + cell list list"
  pdf_pages :: "bytes \<Rightarrow> string + 'p list"
  pdf_single :: "'p \<Rightarrow> bytes"
  write_failure :: "filesystem \<Rightarrow> ustring \<Rightarrow> bytes \<Rightarrow> filesystem option"

subsection \<open>Python's string methods\<close>

text \<open>\<^verbatim>\<open>c.isalnum()\<close> for a one-character string: digits and letters in ASCII, the table beyond.\<close>

definition isalnum :: "'p lib \<Rightarrow> nat \<Rightarrow> bool" where
  "isalnum L c =
     (if c < 128 then (48 \<le> c \<and> c \<le> 57) \<or> (65 \<le> c \<and> c \<le> 90) \<or> (97 \<le> c \<and> c \<le> 122)
      else u_isalnum L c)"

text \<open>Whitespace as \<^verbatim>\<open>str.strip()\<close> sees it: tab to carriage return, the separators 28 to 31, space.\<close>

definition isspace :: "'p lib \<Rightarrow> nat \<Rightarrow> bool" where
  "isspace L c =
     (if c < 128 then (9 \<le> c \<and> c \<le> 13) \<or> (28 \<le> c \<and> c \<le> 32) else u_isspace L c)"

definition strip :: "'p lib \<Rightarrow> ustring \<Rightarrow> ustring" where
  "strip L s = rev (dropWhile (isspace L) (rev (dropWhile (isspace L) s)))"

definition lower :: "'p lib \<Rightarrow> ustring \<Rightarrow> ustring" where
  "lower L s =
     concat (map (\<lambda>c. if c < 128 then (if 65 \<le> c \<and> c \<le> 90 then [c + 32] else [c])
                       else u_lower L c) s)"

definition startswith :: "ustring \<Rightarrow> ustring \<Rightarrow> bool" where
  "startswith s p = (take (length p) s = p)"

definition endswith :: "ustring \<Rightarrow> ustring \<Rightarrow> bool" where
  "endswith s p = (length p \<le> length s \<and> drop (length s - length p) s = p)"

text \<open>\<^verbatim>\<open>str(n)\<close> for a natural number: its decimal digits.\<close>

function str_nat :: "nat \<Rightarrow> ustring" where
  "str_nat n = (if n < 10 then [48 + n] else str_nat (n div 10) @ [48 + n mod 10])"
  by pat_completeness auto
termination
  by (relation "measure id") auto

declare str_nat.simps [simp del]

text \<open>\<^verbatim>\<open>os.path.join(a, b)\<close> of posixpath, for two components.\<close>

definition os_path_join :: "ustring \<Rightarrow> ustring \<Rightarrow> ustring" where
  "os_path_join a b =
     (if startswith b [47] then b
      else if a = [] \<or> endswith a [47] then a @ b
      else a @ [47] @ b)"

subsection \<open>Cleaning a file name (lines 118 to 121)\<close>

text \<open>
  The condition of the generator expression: \<^verbatim>\<open>c.isalnum() or c in (' ', '_', '-', '(', ')',\<close>
  and the two full-width parentheses.
\<close>

definition keep :: "'p lib \<Rightarrow> nat \<Rightarrow> bool" where
  "keep L c = (isalnum L c \<or> c \<in> set [32, 95, 45, 40, 41, 65288, 65289])"

text \<open>
  \<^verbatim>\<open>safe_name\<close> for the name at loop index \<open>i\<close> (counted from 0): the kept characters of the
  stripped name, or \<^verbatim>\<open>f"page_{i+1}"\<close> when none is left.
\<close>

definition safe_name :: "'p lib \<Rightarrow> nat \<Rightarrow> ustring \<Rightarrow> ustring" where
  "safe_name L i name =
     (let s = filter (keep L) (strip L name)
      in if s = [] then ustr ''page_'' @ str_nat (i + 1) else s)"





subsection \<open>Exceptions\<close>

text \<open>
  The messages of the exceptions the program raises itself: line 74 (the name file does
  not exist), line 101 (the PDF file does not exist), line 94 (reading the Excel file
  failed, with the text of the cause), line 96 (the file cannot be read, check its format
  and encoding) and lines 108 to 111 (the number of names and the number of pages differ).
\<close>

datatype message =
    NamesFileMissing
  | PdfFileMissing
  | ExcelReadFailed string
  | CannotReadFile
  | CountMismatch nat nat

text \<open>
  \<open>IndexError\<close> is what \<^verbatim>\<open>reader.pages[i]\<close> and \<^verbatim>\<open>df.iloc[:, 0]\<close> raise out of range;
  \<open>LibraryError\<close> is an exception of PyPDF2 passing through \<^verbatim>\<open>split_pdf\<close>; \<open>OSError\<close> is
  what \<^verbatim>\<open>open(output_path, 'wb')\<close> and the write of lines 127 and 128 raise, with the path.
\<close>

datatype exn =
    FileNotFoundError message
  | ValueError message
  | IndexError
  | LibraryError string
  | OSError ustring

subsection \<open>pandas: reading a table (lines 83, 92, 151 and 156)\<close>

text \<open>The codec named latin1 maps every byte to the code point of the same number.\<close>

definition decode :: "'p lib \<Rightarrow> string \<Rightarrow> bytes \<Rightarrow> decoded" where
  "decode L enc raw = (if enc = ''latin1'' then Decoded (map unat raw) else codec_decode L enc raw)"

datatype pd_error = DecodeFailed | OtherFailed string

text \<open>
  \<^verbatim>\<open>pd.read_csv(file_path, encoding=enc)\<close>: no \<^verbatim>\<open>header\<close> argument is given, so pandas takes
  the first row of the table as the column labels and the rows after it as the data. No
  encoding (\<^verbatim>\<open>None\<close>) means utf-8. A file with no row at all raises \<^verbatim>\<open>EmptyDataError\<close>.
\<close>

definition pd_read_csv :: "'p lib \<Rightarrow> bytes \<Rightarrow> string option \<Rightarrow> pd_error + dataframe" where
  "pd_read_csv L raw encoding =
     (case decode L (case encoding of None \<Rightarrow> ''utf-8'' | Some e \<Rightarrow> e) raw of
        UnicodeDecodeError \<Rightarrow> Inl DecodeFailed
      | CodecError c \<Rightarrow> Inl (OtherFailed c)
      | Decoded text \<Rightarrow>
          (case csv_table L text of
             Inl c \<Rightarrow> Inl (OtherFailed c)
           | Inr [] \<Rightarrow> Inl (OtherFailed ''No columns to parse from file'')
           | Inr (header # body) \<Rightarrow> Inr \<lparr>columns = header, rows = body\<rparr>))"

text \<open>\<^verbatim>\<open>pd.read_excel(file_path)\<close>, again with the first row as the labels; an empty sheet is an empty frame.\<close>

definition pd_read_excel :: "'p lib \<Rightarrow> bytes \<Rightarrow> string + dataframe" where
  "pd_read_excel L raw =
     (case excel_table L raw of
        Inl c \<Rightarrow> Inl c
      | Inr [] \<Rightarrow> Inr \<lparr>columns = [], rows = []\<rparr>
      | Inr (header # body) \<Rightarrow> Inr \<lparr>columns = header, rows = body\<rparr>)"

text \<open>\<^verbatim>\<open>df.empty\<close>: an axis of length 0.\<close>

definition df_empty :: "dataframe \<Rightarrow> bool" where
  "df_empty df = (columns df = [] \<or> rows df = [])"

text \<open>\<^verbatim>\<open>astype(str)\<close> on one value: the missing value becomes the text nan.\<close>

fun astype_str :: "cell \<Rightarrow> ustring" where
  "astype_str NaN = ustr ''nan''"
| "astype_str (Val s) = s"

text \<open>The first cell of a row; pandas fills a short row with missing values.\<close>

fun first_cell :: "cell list \<Rightarrow> cell" where
  "first_cell [] = NaN"
| "first_cell (c # cs) = c"

text \<open>\<^verbatim>\<open>df.iloc[:, 0].astype(str).tolist()\<close> (line 156).\<close>

definition first_column_names :: "dataframe \<Rightarrow> exn + ustring list" where
  "first_column_names df =
     (if columns df = [] then Inl IndexError
      else Inr (map (\<lambda>r. astype_str (first_cell r)) (rows df)))"

subsection \<open>Reading the name file (lines 65 to 96)\<close>

definition detect_file_encoding :: "'p lib \<Rightarrow> bytes \<Rightarrow> string option" where
  "detect_file_encoding L content = chardet_detect L (take 100000 content)"

definition encodings_to_try :: "string option \<Rightarrow> string option list" where
  "encodings_to_try encoding =
     [encoding, Some ''gb18030'', Some ''gbk'', Some ''utf-8'', Some ''utf-16'', Some ''latin1'']"

text \<open>
  The \<^verbatim>\<open>for enc in encodings_to_try\<close> loop. It leaves by \<^verbatim>\<open>return\<close>, by \<^verbatim>\<open>break\<close>, or by
  running out of candidates; the first component lists the encodings \<^verbatim>\<open>read_csv\<close> was
  called with, in order.
\<close>

datatype loop_exit = Returned dataframe | Broke | Exhausted

fun csv_loop :: "'p lib \<Rightarrow> bytes \<Rightarrow> string option list \<Rightarrow> string option list \<times> loop_exit" where
  "csv_loop L raw [] = ([], Exhausted)"
| "csv_loop L raw (enc # encs) =
     (case pd_read_csv L raw enc of
        Inr df \<Rightarrow> ([enc], Returned df)
      | Inl DecodeFailed \<Rightarrow> (let (tried, r) = csv_loop L raw encs in (enc # tried, r))
      | Inl (OtherFailed c) \<Rightarrow> ([enc], Broke))"

text \<open>Lines 89 to 96: the Excel attempt and the final \<^verbatim>\<open>raise\<close>.\<close>

definition excel_or_fail :: "'p lib \<Rightarrow> bytes \<Rightarrow> ustring \<Rightarrow> exn + dataframe" where
  "excel_or_fail L raw file_path =
     (if endswith (lower L file_path) (ustr ''.xls'') \<or> endswith (lower L file_path) (ustr ''.xlsx'')
      then (case pd_read_excel L raw of
              Inl c \<Rightarrow> Inl (ValueError (ExcelReadFailed c))
            | Inr df \<Rightarrow> Inr df)
      else Inl (ValueError CannotReadFile))"

definition read_name_file :: "'p lib \<Rightarrow> filesystem \<Rightarrow> ustring \<Rightarrow> exn + dataframe" where
  "read_name_file L fs file_path =
     (case fs file_path of
        None \<Rightarrow> Inl (FileNotFoundError NamesFileMissing)
      | Some raw \<Rightarrow>
          (if endswith (lower L file_path) (ustr ''.csv'')
           then (case snd (csv_loop L raw (encodings_to_try (detect_file_encoding L raw))) of
                   Returned df \<Rightarrow> Inr df
                 | Broke \<Rightarrow> excel_or_fail L raw file_path
                 | Exhausted \<Rightarrow> excel_or_fail L raw file_path)
           else excel_or_fail L raw file_path))"

subsection \<open>Splitting (lines 98 to 131)\<close>

text \<open>
  The path written for the name at loop index \<open>i\<close> (line 126).
\<close>

definition output_path :: "'p lib \<Rightarrow> ustring \<Rightarrow> nat \<Rightarrow> ustring \<Rightarrow> ustring" where
  "output_path L output_folder i name =
     os_path_join output_folder (safe_name L i name @ ustr ''.pdf'')"

text \<open>
  The loop \<^verbatim>\<open>for i, name in enumerate(names)\<close>, from index \<open>i\<close> on: a writer with the one
  page \<^verbatim>\<open>reader.pages[i]\<close> is written to the output path, replacing what was there. When
  opening or writing the file fails, the loop ends with the \<open>OSError\<close>; the files written
  before stay (there is no rollback). The calls to the progress bar and to the window are
  not modelled.
\<close>

fun split_loop ::
  "'p lib \<Rightarrow> ustring \<Rightarrow> 'p list \<Rightarrow> nat \<Rightarrow> ustring list \<Rightarrow> filesystem \<Rightarrow> exn option \<times> filesystem" where
  "split_loop L output_folder pages i [] fs = (None, fs)"
| "split_loop L output_folder pages i (name # names) fs =
     (if i < length pages
      then (case write_failure L fs (output_path L output_folder i name)
                   (pdf_single L (pages ! i)) of
              None \<Rightarrow>
                split_loop L output_folder pages (i + 1) names
                  (fs(output_path L output_folder i name \<mapsto> pdf_single L (pages ! i)))
            | Some fs' \<Rightarrow> (Some (OSError (output_path L output_folder i name)), fs'))
      else (Some IndexError, fs))"

definition split_pdf ::
  "'p lib \<Rightarrow> filesystem \<Rightarrow> ustring \<Rightarrow> ustring \<Rightarrow> ustring list \<Rightarrow> exn option \<times> filesystem" where
  "split_pdf L fs pdf_path output_folder names =
     (case fs pdf_path of
        None \<Rightarrow> (Some (FileNotFoundError PdfFileMissing), fs)
      | Some raw \<Rightarrow>
          (case pdf_pages L raw of
             Inl c \<Rightarrow> (Some (LibraryError c), fs)
           | Inr pages \<Rightarrow>
               (let total_pages = length pages
                in if length names \<noteq> total_pages
                   then (Some (ValueError (CountMismatch (length names) total_pages)), fs)
                   else split_loop L output_folder pages 0 names fs)))"

subsection \<open>The driver (lines 133 to 172)\<close>

text \<open>
  The message box the run ends with: the three error boxes of the checks, the box of the
  \<^verbatim>\<open>except\<close> clause with the exception, or the final report with the number of names, the
  output folder and the first and last name (\<open>None\<close> where the report prints its placeholder).
\<close>

datatype dialog =
    FieldsRequired
  | NotAPdfFile
  | NamesFileEmpty
  | Failed exn
  | Finished nat ustring "ustring option" "ustring option"

definition start_split ::
  "'p lib \<Rightarrow> filesystem \<Rightarrow> ustring \<Rightarrow> ustring \<Rightarrow> ustring \<Rightarrow> dialog \<times> filesystem" where
  "start_split L fs pdf_path output_folder csv_path =
     (if pdf_path = [] \<or> output_folder = [] \<or> csv_path = [] then (FieldsRequired, fs)
      else if \<not> endswith (lower L pdf_path) (ustr ''.pdf'') then (NotAPdfFile, fs)
      else (case read_name_file L fs csv_path of
              Inl e \<Rightarrow> (Failed e, fs)
            | Inr df \<Rightarrow>
                (if df_empty df then (NamesFileEmpty, fs)
                 else (case first_column_names df of
                         Inl e \<Rightarrow> (Failed e, fs)
                       | Inr names \<Rightarrow>
                           (case split_pdf L fs pdf_path output_folder names of
                              (Some e, fs') \<Rightarrow> (Failed e, fs')
                            | (None, fs') \<Rightarrow>
                                (Finished (length names) output_folder
                                   (if length names > 0 then Some (hd names) else None)
                                   (if length names > 1 then Some (last names) else None),
                                 fs'))))))"

subsection \<open>A small environment for running the model\<close>

text \<open>
  An instance of the environment on which the definitions above can be evaluated: the CJK
  unified ideographs are the letters beyond ASCII, the usual Unicode spaces are
  whitespace, every codec but latin1 accepts exactly the ASCII byte strings, a table has
  one cell per non-blank line (the text NA is the missing value, a double quote is a
  tokenising error), a document is a byte string with one byte per page, and a write
  succeeds exactly for a path in the folder out of at most 255 characters after the
  folder, a failed write leaving the file system as it was.
\<close>

fun split_lines :: "ustring \<Rightarrow> ustring \<Rightarrow> ustring list" where
  "split_lines acc [] = (if acc = [] then [] else [rev acc])"
| "split_lines acc (c # cs) =
     (if c = 10 then rev acc # split_lines [] cs else split_lines (c # acc) cs)"

definition test_table :: "ustring \<Rightarrow> string + cell list list" where
  "test_table text =
     (if 34 \<in> set text then Inl ''Error tokenizing data''
      else Inr (map (\<lambda>l. [if l = ustr ''NA'' then NaN else Val l])
                  (filter (\<lambda>l. l \<noteq> []) (split_lines [] text))))"

definition test_lib :: "nat lib" where
  "test_lib =
     \<lparr>u_isalnum = (\<lambda>c. 19968 \<le> c \<and> c \<le> 40959),
      u_isspace = (\<lambda>c. c \<in> set [133, 160, 5760, 8232, 8233, 8239, 8287, 12288] \<or> (8192 \<le> c \<and> c \<le> 8202)),
      u_lower = (\<lambda>c. [c]),
      chardet_detect = (\<lambda>raw. if list_all (\<lambda>b. b < 128) raw then Some ''ascii'' else None),
      codec_decode = (\<lambda>enc raw. if list_all (\<lambda>b. b < 128) raw then Decoded (map unat raw)
                                  else UnicodeDecodeError),
      csv_table = test_table,
      excel_table = (\<lambda>raw. Inl ''File is not a zip file''),
      pdf_pages = (\<lambda>raw. Inr (map unat raw)),
      pdf_single = (\<lambda>p. [of_nat p]),
      write_failure = (\<lambda>fs path content.
         if startswith path (ustr ''out/'') \<and> length path \<le> 4 + 255 then None else Some fs)\<rparr>"

subsection \<open>The file names and paths of a run\<close>

text \<open>The clean names and the output paths of the names of a job, in loop order from index \<open>i\<close>.\<close>

fun safe_names :: "'p lib \<Rightarrow> nat \<Rightarrow> ustring list \<Rightarrow> ustring list" where
  "safe_names L i [] = []"
| "safe_names L i (name # names) = safe_name L i name # safe_names L (i + 1) names"

definition output_paths :: "'p lib \<Rightarrow> ustring \<Rightarrow> nat \<Rightarrow> ustring list \<Rightarrow> ustring list" where
  "output_paths L output_folder i names =
     map (\<lambda>s. os_path_join output_folder (s @ ustr ''.pdf'')) (safe_names L i names)"

text \<open>The three-page job of the specification's collision scenario, on the small environment.\<close>

definition invoice_names :: "ustring list" where
  "invoice_names = [ustr ''Invoice A'', ustr ''Invoice B'', ustr ''Invoice B'']"

definition invoice_fs :: filesystem where
  "invoice_fs = [ustr ''in.pdf'' \<mapsto> [1, 2, 3]]"


text \<open>
  A fact of the Unicode character database: no whitespace character is a letter or a digit.
\<close>

definition unicode_consistent :: "'p lib \<Rightarrow> bool" where
  "unicode_consistent L = (\<forall>c. u_isspace L c \<longrightarrow> \<not> u_isalnum L c)"

section \<open>Properties\<close>

subsection \<open>Evaluating on the small environment\<close>

lemma test_lib_sel:
  "u_isalnum test_lib = (\<lambda>c. 19968 \<le> c \<and> c \<le> 40959)"
  "u_isspace test_lib = (\<lambda>c. c \<in> set [133, 160, 5760, 8232, 8233, 8239, 8287, 12288] \<or> (8192 \<le> c \<and> c \<le> 8202))"
  "u_lower test_lib = (\<lambda>c. [c])"
  "chardet_detect test_lib = (\<lambda>raw. if list_all (\<lambda>b. b < 128) raw then Some ''ascii'' else None)"
  "codec_decode test_lib = (\<lambda>enc raw. if list_all (\<lambda>b. b < 128) raw then Decoded (map unat raw) else UnicodeDecodeError)"
  "csv_table test_lib = test_table"
  "excel_table test_lib = (\<lambda>raw. Inl ''File is not a zip file'')"
  "pdf_pages test_lib = (\<lambda>raw. Inr (map unat raw))"
  "pdf_single test_lib = (\<lambda>p. [of_nat p])"
  "write_failure test_lib = (\<lambda>fs path content.
     if startswith path (ustr ''out/'') \<and> length path \<le> 4 + 255 then None else Some fs)"
  by (simp_all add: test_lib_def)

lemmas eval_simps = ustr_def safe_name_def strip_def isspace_def keep_def isalnum_def
  output_path_def os_path_join_def startswith_def endswith_def test_lib_sel

subsection \<open>Cleaning a file name\<close>

lemma str_nat_digits: "list_all (\<lambda>c. 48 \<le> c \<and> c \<le> 57) (str_nat n)"
proof (induction n rule: str_nat.induct)
  case (1 n)
  show ?case
  proof (cases "n < 10")
    case True
    then show ?thesis by (subst str_nat.simps) simp
  next
    case False
    have "n mod 10 < 10" by simp
    then have "48 + n mod 10 \<le> 57" by linarith
    with False 1 show ?thesis by (subst str_nat.simps) simp
  qed
qed

lemma str_nat_nonempty: "str_nat n \<noteq> []"
  by (subst str_nat.simps) simp

lemma ustr_page: "ustr ''page_'' = [112, 97, 103, 101, 95]"
  by (simp add: ustr_def)

lemma keep_page: "list_all (keep L) (ustr ''page_'')"
  by (simp add: ustr_page keep_def isalnum_def)

lemma keep_digits: "list_all (\<lambda>c. 48 \<le> c \<and> c \<le> 57) s \<Longrightarrow> list_all (keep L) s"
  by (induction s) (auto simp: keep_def isalnum_def)

lemma safe_name_keep: "list_all (keep L) (safe_name L i name)"
  using keep_digits [OF str_nat_digits, of L "i + 1"] keep_page [of L]
  by (auto simp: safe_name_def Let_def list_all_iff)


lemma safe_name_nonempty: "safe_name L i name \<noteq> []"
  by (simp add: safe_name_def Let_def ustr_page)











lemma space_not_alnum:
  assumes "unicode_consistent L"
  shows "isspace L c \<Longrightarrow> \<not> isalnum L c"
  using assms by (auto simp: unicode_consistent_def isspace_def isalnum_def split: if_splits)

lemma filter_dropWhile_disjoint:
  "(\<And>c. p c \<Longrightarrow> \<not> q c) \<Longrightarrow> filter q (dropWhile p s) = filter q s"
  by (induction s) auto

lemma filter_strip:
  assumes "\<And>c. isspace L c \<Longrightarrow> \<not> q c"
  shows "filter q (strip L s) = filter q s"
proof -
  have "filter q (strip L s) = rev (filter q (dropWhile (isspace L) (rev (dropWhile (isspace L) s))))"
    by (simp add: strip_def rev_filter)
  also have "\<dots> = rev (filter q (rev (dropWhile (isspace L) s)))"
    using assms by (simp add: filter_dropWhile_disjoint)
  also have "\<dots> = filter q (dropWhile (isspace L) s)"
    by (simp add: rev_filter)
  also have "\<dots> = filter q s"
    using assms by (simp add: filter_dropWhile_disjoint)
  finally show ?thesis .
qed

text \<open>
  Claim C10: the test for letters and digits is the Unicode one. Every character of a name
  that \<^verbatim>\<open>isalnum\<close> accepts is in the clean name, in order and with its multiplicity, and a
  character beyond ASCII that the Unicode table classifies as a letter or digit is kept.
  The Unicode table is taken to classify no whitespace character as a letter or digit.
\<close>

theorem alnum_is_unicode_wide:
  assumes "unicode_consistent L"
  shows "(c \<in> set name \<and> isalnum L c \<longrightarrow> c \<in> set (safe_name L i name))
       \<and> (filter (isalnum L) name \<noteq> [] \<longrightarrow>
            filter (isalnum L) (safe_name L i name) = filter (isalnum L) name)
       \<and> (128 \<le> c \<and> u_isalnum L c \<longrightarrow> isalnum L c \<and> keep L c \<and> safe_name L i [c] = [c])"
proof -
  have sp: "isspace L x \<Longrightarrow> \<not> isalnum L x" for x
    using assms by (rule space_not_alnum)
  have fa: "filter (isalnum L) (strip L s) = filter (isalnum L) s" for s
    using sp by (rule filter_strip)
  have ak: "isalnum L x \<Longrightarrow> keep L x" for x by (simp add: keep_def)
  have ne: "filter (isalnum L) s \<noteq> [] \<Longrightarrow> filter (keep L) (strip L s) \<noteq> []" for s
  proof -
    assume "filter (isalnum L) s \<noteq> []"
    then have "filter (isalnum L) (strip L s) \<noteq> []" by (simp add: fa)
    then obtain x where "x \<in> set (strip L s)" "isalnum L x"
      by (auto simp: filter_empty_conv)
    then show ?thesis using ak by (auto simp: filter_empty_conv)
  qed
  have fk: "filter (isalnum L) (filter (keep L) s) = filter (isalnum L) s" for s
    using ak by (induction s) auto
  have 2: "filter (isalnum L) name \<noteq> [] \<Longrightarrow>
            filter (isalnum L) (safe_name L i name) = filter (isalnum L) name"
  proof -
    assume "filter (isalnum L) name \<noteq> []"
    then have "safe_name L i name = filter (keep L) (strip L name)"
      using ne [of name] by (simp add: safe_name_def Let_def)
    then show ?thesis by (simp only: fk fa)
  qed
  have 1: "c \<in> set name \<Longrightarrow> isalnum L c \<Longrightarrow> c \<in> set (safe_name L i name)"
  proof -
    assume c: "c \<in> set name" "isalnum L c"
    then have "c \<in> set (filter (isalnum L) name)" by simp
    moreover from c have "filter (isalnum L) name \<noteq> []" by (auto simp: filter_empty_conv)
    ultimately have "c \<in> set (filter (isalnum L) (safe_name L i name))" using 2 by simp
    then show ?thesis by simp
  qed
  have 3: "128 \<le> c \<Longrightarrow> u_isalnum L c \<Longrightarrow> isalnum L c \<and> keep L c \<and> safe_name L i [c] = [c]"
  proof -
    assume c: "128 \<le> c" "u_isalnum L c"
    then have a: "isalnum L c" by (simp add: isalnum_def)
    then have "\<not> isspace L c" using sp by blast
    with a show ?thesis by (simp add: safe_name_def strip_def keep_def)
  qed
  from 1 2 3 show ?thesis by blast
qed

theorem alnum_is_unicode_wide_witness:
  "unicode_consistent test_lib
   \<and> (20013::nat) \<in> set [47, 20013, 25991, 32] \<and> isalnum test_lib 20013
   \<and> 20013 \<in> set (safe_name test_lib 0 [47, 20013, 25991, 32])
   \<and> safe_name test_lib 0 [20013] = [20013]"
proof -
  have h: "unicode_consistent test_lib"
    by (auto simp: unicode_consistent_def test_lib_sel)
  have a: "isalnum test_lib 20013" by (simp add: isalnum_def test_lib_sel)
  have u: "128 \<le> (20013::nat) \<and> u_isalnum test_lib 20013" by (simp add: test_lib_sel)
  from alnum_is_unicode_wide [OF h, of 20013 "[47, 20013, 25991, 32]" 0] a u h
  show ?thesis by simp
qed

subsection \<open>The splitting loop\<close>


lemma output_paths_Cons:
  "output_paths L out i (name # names) = output_path L out i name # output_paths L out (i + 1) names"
  by (simp add: output_paths_def output_path_def)

lemma length_safe_names: "length (safe_names L i names) = length names"
  by (induction names arbitrary: i) auto

lemma length_output_paths: "length (output_paths L out i names) = length names"
  by (simp add: output_paths_def length_safe_names)

lemma safe_names_nth: "k < length names \<Longrightarrow> safe_names L i names ! k = safe_name L (i + k) (names ! k)"
proof (induction names arbitrary: i k)
  case Nil
  then show ?case by simp
next
  case (Cons n ns)
  show ?case
  proof (cases k)
    case 0
    then show ?thesis by simp
  next
    case (Suc j)
    with Cons.prems have "j < length ns" by simp
    from Cons.IH [OF this, of "i + 1"] Suc show ?thesis by simp
  qed
qed

lemma output_paths_nth:
  "k < length names \<Longrightarrow> output_paths L out i names ! k = output_path L out (i + k) (names ! k)"
  by (simp add: output_paths_def output_path_def length_safe_names safe_names_nth)

lemma split_loop_exn:
  "fst (split_loop L out pages i names fs) = None
   \<or> fst (split_loop L out pages i names fs) = Some IndexError
   \<or> (\<exists>p\<in>set (output_paths L out i names).
         fst (split_loop L out pages i names fs) = Some (OSError p))"
proof (induction names arbitrary: i fs)
  case Nil
  then show ?case by simp
next
  case (Cons n ns)
  show ?case
  proof (cases "i < length pages")
    case False
    then show ?thesis by simp
  next
    case True
    show ?thesis
    proof (cases "write_failure L fs (output_path L out i n) (pdf_single L (pages ! i))")
      case (Some fs')
      with True show ?thesis by (simp add: output_paths_Cons)
    next
      case None
      let ?fs = "fs(output_path L out i n \<mapsto> pdf_single L (pages ! i))"
      let ?r = "split_loop L out pages (i + 1) ns ?fs"
      from True None
      have eq: "split_loop L out pages i (n # ns) fs = ?r"
        by simp
      have "fst ?r = None \<or> fst ?r = Some IndexError
          \<or> (\<exists>p\<in>set (output_paths L out (i + 1) ns). fst ?r = Some (OSError p))"
        by (rule Cons.IH)
      then have "fst ?r = None \<or> fst ?r = Some IndexError
          \<or> (\<exists>p\<in>set (output_paths L out i (n # ns)). fst ?r = Some (OSError p))"
        unfolding output_paths_Cons by auto
      then show ?thesis unfolding eq .
    qed
  qed
qed



text \<open>One step of a run that ends without error.\<close>

lemma split_loop_step:
  assumes "fst (split_loop L out pages i (n # ns) fs) = None"
  shows "i < length pages"
    and "write_failure L fs (output_path L out i n) (pdf_single L (pages ! i)) = None"
  using assms by (auto split: if_splits option.splits)

lemma split_loop_untouched:
  "fst (split_loop L out pages i names fs) = None \<Longrightarrow>
   p \<notin> set (output_paths L out i names) \<Longrightarrow>
   snd (split_loop L out pages i names fs) p = fs p"
proof (induction names arbitrary: i fs)
  case Nil
  then show ?case by simp
next
  case (Cons n ns)
  note st = split_loop_step [OF Cons.prems(1)]
  from Cons.prems(1) st
  have ok: "fst (split_loop L out pages (i + 1) ns
                   (fs(output_path L out i n \<mapsto> pdf_single L (pages ! i)))) = None"
    by simp
  from Cons.prems(2) have nin: "p \<notin> set (output_paths L out (i + 1) ns)"
    and ne: "p \<noteq> output_path L out i n"
    by (simp_all add: output_paths_Cons)
  have a: "snd (split_loop L out pages (i + 1) ns
                   (fs(output_path L out i n \<mapsto> pdf_single L (pages ! i)))) p
       = (fs(output_path L out i n \<mapsto> pdf_single L (pages ! i))) p"
    by (rule Cons.IH [OF ok nin])
  have b: "(fs(output_path L out i n \<mapsto> pdf_single L (pages ! i))) p = fs p"
    using ne by simp
  have eq: "split_loop L out pages i (n # ns) fs = split_loop L out pages (i + 1) ns
                   (fs(output_path L out i n \<mapsto> pdf_single L (pages ! i)))"
    using st by simp
  show ?case unfolding eq using a b by (rule trans)
qed



lemma split_loop_written:
  "fst (split_loop L out pages i names fs) = None \<Longrightarrow> k < length names \<Longrightarrow>
   output_paths L out i names ! k \<notin> set (drop (Suc k) (output_paths L out i names)) \<Longrightarrow>
   snd (split_loop L out pages i names fs) (output_paths L out i names ! k)
     = Some (pdf_single L (pages ! (i + k)))"
proof (induction names arbitrary: i fs k)
  case Nil
  then show ?case by simp
next
  case (Cons n ns)
  note st = split_loop_step [OF Cons.prems(1)]
  let ?fs = "fs(output_path L out i n \<mapsto> pdf_single L (pages ! i))"
  have eq: "split_loop L out pages i (n # ns) fs = split_loop L out pages (i + 1) ns ?fs"
    using st by simp
  from Cons.prems(1) have ok: "fst (split_loop L out pages (i + 1) ns ?fs) = None"
    unfolding eq .
  show ?case
  proof (cases k)
    case 0
    with Cons.prems(3) have nin: "output_path L out i n \<notin> set (output_paths L out (i + 1) ns)"
      by (simp add: output_paths_Cons)
    have "snd (split_loop L out pages (i + 1) ns ?fs) (output_path L out i n)
            = ?fs (output_path L out i n)"
      by (rule split_loop_untouched [OF ok nin])
    also have "\<dots> = Some (pdf_single L (pages ! (i + 0)))" by simp
    finally show ?thesis unfolding eq 0 output_paths_Cons by simp
  next
    case (Suc j)
    with Cons.prems have j: "j < length ns"
      and nin: "output_paths L out (i + 1) ns ! j \<notin> set (drop (Suc j) (output_paths L out (i + 1) ns))"
      by (simp_all add: output_paths_Cons)
    have "snd (split_loop L out pages (i + 1) ns ?fs) (output_paths L out (i + 1) ns ! j)
            = Some (pdf_single L (pages ! (i + 1 + j)))"
      by (rule Cons.IH [OF ok j nin])
    then show ?thesis unfolding eq Suc output_paths_Cons by simp
  qed
qed

lemma keep_not_slash: "keep L c \<Longrightarrow> c \<noteq> 47"
  by (auto simp: keep_def isalnum_def split: if_splits)

lemma safe_name_no_slash: "\<not> startswith (safe_name L i name @ s) [47]"
proof -
  obtain c cs where eq: "safe_name L i name = c # cs"
    using safe_name_nonempty [of L i name] by (cases "safe_name L i name") auto
  have "keep L c" using safe_name_keep [of L i name] eq by simp
  then have "c \<noteq> 47" by (rule keep_not_slash)
  then show ?thesis by (simp add: eq startswith_def)
qed

lemma output_path_inj:
  "output_path L out i name = output_path L out j name' \<longleftrightarrow> safe_name L i name = safe_name L j name'"
  by (simp add: output_path_def os_path_join_def safe_name_no_slash)

lemma invoice_paths:
  "output_path test_lib (ustr ''out'') i (ustr ''Invoice A'') = ustr ''out/Invoice A.pdf''"
  "output_path test_lib (ustr ''out'') i (ustr ''Invoice B'') = ustr ''out/Invoice B.pdf''"
  by (simp_all add: eval_simps)

lemma invoice_run:
  "split_pdf test_lib invoice_fs (ustr ''in.pdf'') (ustr ''out'') invoice_names =
     (None, [ustr ''in.pdf'' \<mapsto> [1, 2, 3], ustr ''out/Invoice A.pdf'' \<mapsto> [1],
             ustr ''out/Invoice B.pdf'' \<mapsto> [3]])"
  by (simp add: split_pdf_def invoice_fs_def invoice_names_def invoice_paths test_lib_sel)
    (simp add: startswith_def ustr_def)





lemma last_use_of_path:
  assumes k: "k < length names"
    and later: "\<forall>j. k < j \<and> j < length names \<longrightarrow>
                  safe_name L (i + j) (names ! j) \<noteq> safe_name L (i + k) (names ! k)"
  shows "output_paths L out i names ! k \<notin> set (drop (Suc k) (output_paths L out i names))"
proof
  assume "output_paths L out i names ! k \<in> set (drop (Suc k) (output_paths L out i names))"
  then obtain m where m: "m < length (drop (Suc k) (output_paths L out i names))"
    and dm: "drop (Suc k) (output_paths L out i names) ! m = output_paths L out i names ! k"
    by (auto simp: in_set_conv_nth)
  define j where "j = Suc k + m"
  from m have j: "Suc k \<le> j" "j < length names"
    by (simp_all add: j_def length_output_paths)
  from dm j have eq: "output_paths L out i names ! k = output_paths L out i names ! j"
    by (simp add: j_def length_output_paths)
  from eq k j have "safe_name L (i + k) (names ! k) = safe_name L (i + j) (names ! j)"
    by (simp add: output_paths_nth output_path_inj)
  moreover from later j
  have "safe_name L (i + j) (names ! j) \<noteq> safe_name L (i + k) (names ! k)"
    by (metis Suc_le_lessD)
  ultimately show False by simp
qed

lemma split_pdf_valid:
  assumes "fs pdf_path = Some raw" "pdf_pages L raw = Inr pages" "length names = length pages"
  shows "split_pdf L fs pdf_path out names = split_loop L out pages 0 names fs"
  using assms by (simp add: split_pdf_def)



lemma start_split_run:
  assumes "pdf_path \<noteq> []" "out \<noteq> []" "csv_path \<noteq> []"
    and "endswith (lower L pdf_path) (ustr ''.pdf'')"
    and "read_name_file L fs csv_path = Inr df" and "\<not> df_empty df"
  shows "start_split L fs pdf_path out csv_path =
     (let names = map (\<lambda>r. astype_str (first_cell r)) (rows df)
      in case split_pdf L fs pdf_path out names of
           (Some e, fs') \<Rightarrow> (Failed e, fs')
         | (None, fs') \<Rightarrow>
             (Finished (length names) out
                (if length names > 0 then Some (hd names) else None)
                (if length names > 1 then Some (last names) else None), fs'))"
  using assms by (simp add: start_split_def df_empty_def first_column_names_def Let_def)


text \<open>
  Claim C2: for a source document that exists and parses, \<^verbatim>\<open>split_pdf\<close> fails with the
  count mismatch error exactly when the number of names differs from the number of pages,
  and then the file system is unchanged: the check precedes every write. The same holds
  for the whole run \<^verbatim>\<open>start_split\<close> once a non-empty name list has been read.
\<close>

theorem count_mismatch_iff:
  assumes "fs pdf_path = Some raw" and "pdf_pages L raw = Inr pages"
  shows "((\<exists>a b. fst (split_pdf L fs pdf_path out names) = Some (ValueError (CountMismatch a b)))
            \<longleftrightarrow> length names \<noteq> length pages)
       \<and> (length names \<noteq> length pages \<longrightarrow>
            split_pdf L fs pdf_path out names
              = (Some (ValueError (CountMismatch (length names) (length pages))), fs))
       \<and> (pdf_path \<noteq> [] \<and> out \<noteq> [] \<and> csv_path \<noteq> []
            \<and> endswith (lower L pdf_path) (ustr ''.pdf'')
            \<and> read_name_file L fs csv_path = Inr df \<and> \<not> df_empty df \<longrightarrow>
            ((\<exists>a b. fst (start_split L fs pdf_path out csv_path)
                      = Failed (ValueError (CountMismatch a b)))
               \<longleftrightarrow> length (rows df) \<noteq> length pages)
            \<and> (length (rows df) \<noteq> length pages \<longrightarrow>
                 start_split L fs pdf_path out csv_path
                   = (Failed (ValueError (CountMismatch (length (rows df)) (length pages))), fs)))"
proof -
  have mismatch: "split_pdf L fs pdf_path out ns
      = (Some (ValueError (CountMismatch (length ns) (length pages))), fs)"
    if "length ns \<noteq> length pages" for ns
    using that assms by (simp add: split_pdf_def)
  have match: "fst (split_pdf L fs pdf_path out ns) \<noteq> Some (ValueError (CountMismatch a b))"
    if "length ns = length pages" for ns a b
  proof -
    from that assms have "split_pdf L fs pdf_path out ns = split_loop L out pages 0 ns fs"
      by (simp add: split_pdf_def)
    with split_loop_exn [of L out pages 0 ns fs] show ?thesis by auto
  qed
  have 1: "(\<exists>a b. fst (split_pdf L fs pdf_path out names) = Some (ValueError (CountMismatch a b)))
            \<longleftrightarrow> length names \<noteq> length pages"
    using mismatch [of names] match [of names] by (cases "length names = length pages") auto
  have 2: "length names \<noteq> length pages \<longrightarrow>
            split_pdf L fs pdf_path out names
              = (Some (ValueError (CountMismatch (length names) (length pages))), fs)"
    using mismatch by blast
  have 3: "((\<exists>a b. fst (start_split L fs pdf_path out csv_path)
                      = Failed (ValueError (CountMismatch a b)))
               \<longleftrightarrow> length (rows df) \<noteq> length pages)
            \<and> (length (rows df) \<noteq> length pages \<longrightarrow>
                 start_split L fs pdf_path out csv_path
                   = (Failed (ValueError (CountMismatch (length (rows df)) (length pages))), fs))"
    if h: "pdf_path \<noteq> []" "out \<noteq> []" "csv_path \<noteq> []"
      "endswith (lower L pdf_path) (ustr ''.pdf'')"
      "read_name_file L fs csv_path = Inr df" "\<not> df_empty df"
  proof (cases "length (rows df) = length pages")
    case True
    let ?ns = "map (\<lambda>r. astype_str (first_cell r)) (rows df)"
    from True have "\<And>a b. fst (split_pdf L fs pdf_path out ?ns)
        \<noteq> Some (ValueError (CountMismatch a b))" by (simp add: match)
    then have "\<And>a b. fst (start_split L fs pdf_path out csv_path)
        \<noteq> Failed (ValueError (CountMismatch a b))"
      by (cases "split_pdf L fs pdf_path out ?ns")
        (auto simp: start_split_run [OF h] Let_def split: option.splits)
    with True show ?thesis by simp
  next
    case False
    let ?ns = "map (\<lambda>r. astype_str (first_cell r)) (rows df)"
    from False have "split_pdf L fs pdf_path out ?ns
        = (Some (ValueError (CountMismatch (length ?ns) (length pages))), fs)"
      by (simp add: mismatch)
    with False show ?thesis by (simp add: start_split_run [OF h] Let_def)
  qed
  from 1 2 3 show ?thesis by blast
qed

theorem count_mismatch_iff_witness:
  "invoice_fs (ustr ''in.pdf'') = Some [1, 2, 3]
   \<and> pdf_pages test_lib [1, 2, 3] = Inr [1, 2, 3]
   \<and> length [ustr ''A'', ustr ''B''] \<noteq> length [1::nat, 2, 3]
   \<and> split_pdf test_lib invoice_fs (ustr ''in.pdf'') (ustr ''out'') [ustr ''A'', ustr ''B'']
        = (Some (ValueError (CountMismatch 2 3)), invoice_fs)
   \<and> read_name_file test_lib (invoice_fs(ustr ''n.csv'' \<mapsto> [104, 10, 65, 10, 66, 10])) (ustr ''n.csv'')
        = Inr \<lparr>columns = [Val [104]], rows = [[Val [65]], [Val [66]]]\<rparr>
   \<and> start_split test_lib (invoice_fs(ustr ''n.csv'' \<mapsto> [104, 10, 65, 10, 66, 10]))
         (ustr ''in.pdf'') (ustr ''out'') (ustr ''n.csv'')
        = (Failed (ValueError (CountMismatch 2 3)), invoice_fs(ustr ''n.csv'' \<mapsto> [104, 10, 65, 10, 66, 10]))"
proof -
  let ?fs = "invoice_fs(ustr ''n.csv'' \<mapsto> [104, 10, 65, 10, 66, 10])"
  let ?df = "\<lparr>columns = [Val [104]], rows = [[Val [65]], [Val [66]]]\<rparr>"
  have a: "invoice_fs (ustr ''in.pdf'') = Some [1, 2, 3]" by (simp add: invoice_fs_def)
  have b: "pdf_pages test_lib [1, 2, 3] = Inr [1, 2, 3]" by (simp add: test_lib_sel)
  from count_mismatch_iff [where fs = invoice_fs and pdf_path = "ustr ''in.pdf''"
      and raw = "[1, 2, 3]" and L = test_lib and pages = "[1, 2, 3]"
      and names = "[ustr ''A'', ustr ''B'']" and out = "ustr ''out''", OF a b]
  have 1: "split_pdf test_lib invoice_fs (ustr ''in.pdf'') (ustr ''out'') [ustr ''A'', ustr ''B'']
        = (Some (ValueError (CountMismatch 2 3)), invoice_fs)"
    by simp
  have a': "?fs (ustr ''in.pdf'') = Some [1, 2, 3]" by (simp add: invoice_fs_def ustr_def)
  have r: "read_name_file test_lib ?fs (ustr ''n.csv'') = Inr ?df"
    by (simp add: read_name_file_def detect_file_encoding_def encodings_to_try_def
      pd_read_csv_def decode_def test_lib_sel test_table_def lower_def endswith_def ustr_def)
  have h: "ustr ''in.pdf'' \<noteq> [] \<and> ustr ''out'' \<noteq> [] \<and> ustr ''n.csv'' \<noteq> []
      \<and> endswith (lower test_lib (ustr ''in.pdf'')) (ustr ''.pdf'')
      \<and> read_name_file test_lib ?fs (ustr ''n.csv'') = Inr ?df \<and> \<not> df_empty ?df"
    using r by (simp add: df_empty_def lower_def eval_simps)
  have n: "length (rows ?df) \<noteq> length [1::nat, 2, 3]" by simp
  from count_mismatch_iff [where fs = ?fs and pdf_path = "ustr ''in.pdf''"
      and raw = "[1, 2, 3]" and L = test_lib and pages = "[1, 2, 3]"
      and out = "ustr ''out''" and csv_path = "ustr ''n.csv''" and df = ?df, OF a' b] h n
  have 2: "start_split test_lib ?fs (ustr ''in.pdf'') (ustr ''out'') (ustr ''n.csv'')
        = (Failed (ValueError (CountMismatch (length (rows ?df)) (length [1::nat, 2, 3]))), ?fs)"
    by blast
  from a b 1 r 2 show ?thesis by simp
qed

text \<open>
  Claim C7: when two names of a job have the same clean name, both pages go to the same
  path and, after a run that ends without error, the file holds the page of the last such
  name. For the three-page source with
  the names Invoice A, Invoice B, Invoice B the run creates exactly two files, the file
  Invoice B.pdf holds page 3, and no file holds page 2.
\<close>

theorem collision_overwrites:
  "(fs pdf_path = Some raw \<and> pdf_pages L raw = Inr pages \<and> length names = length pages
      \<and> i < j \<and> j < length names
      \<and> safe_name L i (names ! i) = safe_name L j (names ! j)
      \<and> (\<forall>k. j < k \<and> k < length names \<longrightarrow>
             safe_name L k (names ! k) \<noteq> safe_name L j (names ! j))
      \<and> fst (split_pdf L fs pdf_path out names) = None
    \<longrightarrow> output_path L out i (names ! i) = output_path L out j (names ! j)
      \<and> snd (split_pdf L fs pdf_path out names) (output_path L out i (names ! i))
          = Some (pdf_single L (pages ! j)))
   \<and> pdf_pages test_lib (the (invoice_fs (ustr ''in.pdf''))) = Inr [1, 2, 3]
   \<and> map (safe_name test_lib 0) invoice_names
       = [ustr ''Invoice A'', ustr ''Invoice B'', ustr ''Invoice B'']
   \<and> fst (split_pdf test_lib invoice_fs (ustr ''in.pdf'') (ustr ''out'') invoice_names) = None
   \<and> dom (snd (split_pdf test_lib invoice_fs (ustr ''in.pdf'') (ustr ''out'') invoice_names))
        - dom invoice_fs = {ustr ''out/Invoice A.pdf'', ustr ''out/Invoice B.pdf''}
   \<and> card (dom (snd (split_pdf test_lib invoice_fs (ustr ''in.pdf'') (ustr ''out'') invoice_names))
        - dom invoice_fs) = 2
   \<and> snd (split_pdf test_lib invoice_fs (ustr ''in.pdf'') (ustr ''out'') invoice_names)
        (ustr ''out/Invoice B.pdf'') = Some (pdf_single test_lib ([1, 2, 3] ! 2))
   \<and> (\<forall>p. snd (split_pdf test_lib invoice_fs (ustr ''in.pdf'') (ustr ''out'') invoice_names) p
          \<noteq> Some (pdf_single test_lib ([1, 2, 3] ! 1)))"
proof -
  have general: "output_path L out i (names ! i) = output_path L out j (names ! j)
      \<and> snd (split_pdf L fs pdf_path out names) (output_path L out i (names ! i))
          = Some (pdf_single L (pages ! j))"
    if a: "fs pdf_path = Some raw" "pdf_pages L raw = Inr pages" "length names = length pages"
      and ij: "i < j" "j < length names"
      and same: "safe_name L i (names ! i) = safe_name L j (names ! j)"
      and last: "\<forall>k. j < k \<and> k < length names \<longrightarrow>
             safe_name L k (names ! k) \<noteq> safe_name L j (names ! j)"
      and ok: "fst (split_pdf L fs pdf_path out names) = None"
  proof -
    have run: "split_pdf L fs pdf_path out names = split_loop L out pages 0 names fs"
      using a by (rule split_pdf_valid)
    from ok have ok': "fst (split_loop L out pages 0 names fs) = None" unfolding run .
    have eq: "output_path L out i (names ! i) = output_path L out j (names ! j)"
      using same by (simp add: output_path_inj)
    from last have "\<forall>k. j < k \<and> k < length names \<longrightarrow>
        safe_name L (0 + k) (names ! k) \<noteq> safe_name L (0 + j) (names ! j)" by simp
    from last_use_of_path [OF ij(2) this]
    have "output_paths L out 0 names ! j \<notin> set (drop (Suc j) (output_paths L out 0 names))" .
    from split_loop_written [OF ok' ij(2) this]
    have "snd (split_loop L out pages 0 names fs) (output_path L out j (names ! j))
            = Some (pdf_single L (pages ! j))"
      using ij(2) by (simp add: output_paths_nth)
    with eq show ?thesis unfolding run by simp
  qed
  have c1: "pdf_pages test_lib (the (invoice_fs (ustr ''in.pdf''))) = Inr [1, 2, 3]"
    by (simp add: invoice_fs_def test_lib_sel)
  have c2: "map (safe_name test_lib 0) invoice_names
       = [ustr ''Invoice A'', ustr ''Invoice B'', ustr ''Invoice B'']"
    by (simp add: invoice_names_def eval_simps)
  have c3: "fst (split_pdf test_lib invoice_fs (ustr ''in.pdf'') (ustr ''out'') invoice_names) = None"
    by (simp add: invoice_run)
  have c4: "dom (snd (split_pdf test_lib invoice_fs (ustr ''in.pdf'') (ustr ''out'') invoice_names))
        - dom invoice_fs = {ustr ''out/Invoice A.pdf'', ustr ''out/Invoice B.pdf''}"
    by (simp only: invoice_run) (auto simp: invoice_fs_def ustr_def)
  have c5: "card (dom (snd (split_pdf test_lib invoice_fs (ustr ''in.pdf'') (ustr ''out'') invoice_names))
        - dom invoice_fs) = 2"
    by (simp only: c4) (simp add: ustr_def)
  have c6: "snd (split_pdf test_lib invoice_fs (ustr ''in.pdf'') (ustr ''out'') invoice_names)
        (ustr ''out/Invoice B.pdf'') = Some (pdf_single test_lib ([1, 2, 3] ! 2))"
    by (simp add: invoice_run test_lib_sel)
  have c7: "\<forall>p. snd (split_pdf test_lib invoice_fs (ustr ''in.pdf'') (ustr ''out'') invoice_names) p
          \<noteq> Some (pdf_single test_lib ([1, 2, 3] ! 1))"
    by (simp add: invoice_run test_lib_sel)
  from general c1 c2 c3 c4 c5 c6 c7 show ?thesis by blast
qed

theorem collision_overwrites_witness:
  "[ustr ''in.pdf'' \<mapsto> [7, 9 :: 8 word]] (ustr ''in.pdf'') = Some [7, 9]
   \<and> pdf_pages test_lib [7, 9] = Inr [7, 9]
   \<and> safe_name test_lib 0 ([ustr ''X/'', ustr ''X''] ! 0) = safe_name test_lib 1 ([ustr ''X/'', ustr ''X''] ! 1)
   \<and> fst (split_pdf test_lib [ustr ''in.pdf'' \<mapsto> [7, 9]] (ustr ''in.pdf'') (ustr ''out'')
             [ustr ''X/'', ustr ''X'']) = None
   \<and> snd (split_pdf test_lib [ustr ''in.pdf'' \<mapsto> [7, 9]] (ustr ''in.pdf'') (ustr ''out'')
             [ustr ''X/'', ustr ''X''])
        (output_path test_lib (ustr ''out'') 0 (ustr ''X/'')) = Some (pdf_single test_lib 9)"
proof -
  let ?fs = "[ustr ''in.pdf'' \<mapsto> [7, 9 :: 8 word]]"
  let ?names = "[ustr ''X/'', ustr ''X'']"
  have a: "?fs (ustr ''in.pdf'') = Some [7, 9]" by simp
  have b: "pdf_pages test_lib [7, 9] = Inr [7, 9]" by (simp add: test_lib_sel)
  have c: "safe_name test_lib 0 (?names ! 0) = safe_name test_lib 1 (?names ! 1)"
    by (simp add: eval_simps)
  have d: "\<forall>k. 1 < k \<and> k < length ?names \<longrightarrow>
             safe_name test_lib k (?names ! k) \<noteq> safe_name test_lib 1 (?names ! 1)"
    by auto
  have ok: "fst (split_pdf test_lib ?fs (ustr ''in.pdf'') (ustr ''out'') ?names) = None"
    by (simp add: split_pdf_def test_lib_sel output_path_def safe_name_def strip_def isspace_def
        keep_def isalnum_def os_path_join_def startswith_def endswith_def ustr_def)
  have "?fs (ustr ''in.pdf'') = Some [7, 9] \<and> pdf_pages test_lib [7, 9] = Inr [7, 9]
      \<and> length ?names = length [7::nat, 9] \<and> (0::nat) < 1 \<and> 1 < length ?names
      \<and> safe_name test_lib 0 (?names ! 0) = safe_name test_lib 1 (?names ! 1)
      \<and> (\<forall>k. 1 < k \<and> k < length ?names \<longrightarrow>
             safe_name test_lib k (?names ! k) \<noteq> safe_name test_lib 1 (?names ! 1))
      \<and> fst (split_pdf test_lib ?fs (ustr ''in.pdf'') (ustr ''out'') ?names) = None"
    using a b c d ok by simp
  with collision_overwrites [of ?fs "ustr ''in.pdf''" "[7, 9]" test_lib "[7, 9]" ?names 0 1 "ustr ''out''"]
  have "snd (split_pdf test_lib ?fs (ustr ''in.pdf'') (ustr ''out'') ?names)
          (output_path test_lib (ustr ''out'') 0 (?names ! 0)) = Some (pdf_single test_lib ([7, 9] ! 1))"
    by blast
  with a b c ok show ?thesis by simp
qed


subsection \<open>Reading the name file\<close>

lemma endswith_last: "endswith s p \<Longrightarrow> p \<noteq> [] \<Longrightarrow> last s = last p"
proof -
  assume e: "endswith s p" and ne: "p \<noteq> []"
  then have d: "drop (length s - length p) s = p" by (simp add: endswith_def)
  then have "s = take (length s - length p) s @ p" by (metis append_take_drop_id)
  then show ?thesis using ne by (metis last_appendR)
qed

lemma csv_not_excel:
  assumes "endswith s (ustr ''.csv'')"
  shows "\<not> endswith s (ustr ''.xls'')" and "\<not> endswith s (ustr ''.xlsx'')"
proof -
  have l: "last s = 118" using endswith_last [OF assms] by (simp add: ustr_def)
  show "\<not> endswith s (ustr ''.xls'')"
  proof
    assume "endswith s (ustr ''.xls'')"
    from endswith_last [OF this] l show False by (simp add: ustr_def)
  qed
  show "\<not> endswith s (ustr ''.xlsx'')"
  proof
    assume "endswith s (ustr ''.xlsx'')"
    from endswith_last [OF this] l show False by (simp add: ustr_def)
  qed
qed

lemma excel_or_fail_csv:
  "endswith (lower L p) (ustr ''.csv'') \<Longrightarrow> excel_or_fail L raw p = Inl (ValueError CannotReadFile)"
  by (simp add: excel_or_fail_def csv_not_excel)

lemma csv_loop_prefix: "\<exists>rest. cands = fst (csv_loop L raw cands) @ rest"
  by (induction cands) (auto split: sum.splits pd_error.splits prod.splits)



lemma csv_loop_returned:
  "snd (csv_loop L raw cands) = Returned df \<Longrightarrow>
   fst (csv_loop L raw cands) \<noteq> [] \<and>
   pd_read_csv L raw (last (fst (csv_loop L raw cands))) = Inr df"
  by (induction cands) (auto split: sum.splits pd_error.splits prod.splits if_splits)

lemma csv_loop_exhausted:
  "snd (csv_loop L raw cands) = Exhausted \<Longrightarrow>
   fst (csv_loop L raw cands) = cands \<and> (\<forall>e\<in>set cands. pd_read_csv L raw e = Inl DecodeFailed)"
  by (induction cands) (auto split: sum.splits pd_error.splits prod.splits if_splits)

lemma latin1_no_decode_error: "pd_read_csv L raw (Some ''latin1'') \<noteq> Inl DecodeFailed"
  by (simp add: pd_read_csv_def decode_def split: sum.splits list.splits)

lemma csv_loop_latin1:
  "Some ''latin1'' \<in> set cands \<Longrightarrow> snd (csv_loop L raw cands) \<noteq> Exhausted"
  using csv_loop_exhausted [of L raw cands] latin1_no_decode_error [of L raw] by blast


text \<open>
  Claim C6: the candidate list ends in latin1, which decodes every byte string, byte for
  byte; so \<^verbatim>\<open>read_csv\<close> under latin1 never fails with a decoding error and the loop never
  runs out of candidates. The resolver \<^verbatim>\<open>detect_file_encoding\<close> is a total function of
  the file's first bytes; when chardet has no guess the first candidate is \<^verbatim>\<open>None\<close>.
\<close>

theorem latin1_ends_the_chain:
  "last (encodings_to_try e) = Some ''latin1''
   \<and> decode L ''latin1'' raw = Decoded (map unat raw)
   \<and> (decode L ''latin1'' raw = decode L ''latin1'' raw' \<longleftrightarrow> raw = raw')
   \<and> pd_read_csv L raw (Some ''latin1'') \<noteq> Inl DecodeFailed
   \<and> snd (csv_loop L raw (encodings_to_try e)) \<noteq> Exhausted
   \<and> snd (csv_loop L raw (encodings_to_try (detect_file_encoding L raw))) \<noteq> Exhausted"
proof -
  have "inj (unat :: 8 word \<Rightarrow> nat)"
    by (rule injI) (simp add: word_unat_eq_iff)
  then have inj: "map unat raw = map unat raw' \<longleftrightarrow> raw = raw'"
    by (rule inj_map_eq_map)
  have m: "Some ''latin1'' \<in> set (encodings_to_try x)" for x
    by (simp add: encodings_to_try_def)
  have 1: "last (encodings_to_try e) = Some ''latin1''"
    by (simp add: encodings_to_try_def)
  have 2: "decode L ''latin1'' raw = Decoded (map unat raw)"
    by (simp add: decode_def)
  have 3: "decode L ''latin1'' raw = decode L ''latin1'' raw' \<longleftrightarrow> raw = raw'"
    using inj by (simp add: decode_def)
  from 1 2 3 latin1_no_decode_error [of L raw] csv_loop_latin1 [OF m, of L raw]
  show ?thesis by blast
qed





theorem latin1_ends_the_chain_witness:
  "decode test_lib ''latin1'' [200, 10, 66] = Decoded [200, 10, 66]
   \<and> decode test_lib ''utf-8'' [200, 10, 66] = UnicodeDecodeError
   \<and> snd (csv_loop test_lib [200, 10, 66] (encodings_to_try None)) \<noteq> Exhausted"
proof -
  have "decode test_lib ''utf-8'' [200, 10, 66] = UnicodeDecodeError"
    by (simp add: decode_def test_lib_sel)
  with latin1_ends_the_chain [of None test_lib "[200, 10, 66]" "[]"]
  show ?thesis by simp
qed




lemma pd_read_csv_Inr:
  "pd_read_csv L raw enc = Inr df \<Longrightarrow>
   \<exists>text header. decode L (case enc of None \<Rightarrow> ''utf-8'' | Some e \<Rightarrow> e) raw = Decoded text
      \<and> csv_table L text = Inr (header # rows df) \<and> columns df = header"
  by (auto simp: pd_read_csv_def split: decoded.splits sum.splits list.splits)

lemma pd_read_excel_Inr:
  "pd_read_excel L raw = Inr df \<Longrightarrow>
   \<exists>table. excel_table L raw = Inr table \<and> rows df = tl table
      \<and> columns df = (case table of [] \<Rightarrow> [] | header # body \<Rightarrow> header)"
  by (auto simp: pd_read_excel_def split: sum.splits list.splits)

lemma csv_loop_tried_subset: "set (fst (csv_loop L raw cands)) \<subseteq> set cands"
  using csv_loop_prefix [of cands L raw] by (metis Un_upper1 set_append)

lemma first_column_names_Inr:
  "first_column_names df = Inr names \<Longrightarrow> names = map (\<lambda>r. astype_str (first_cell r)) (rows df)"
  by (auto simp: first_column_names_def split: if_splits)

text \<open>
  Claim C4, amended: for every name source that is read successfully, delimited text or
  spreadsheet, the frame holds the first row of the table as its column labels and the
  rows after the first as its data; the name list is made of the first cells of the rows
  after the first, so it has one name less than the table has rows, and name 0 is the
  value of the second row.
\<close>

theorem first_row_is_header:
  assumes "read_name_file L fs file_path = Inr df"
  shows "\<exists>raw table. fs file_path = Some raw
       \<and> ((\<exists>enc text. enc \<in> set (encodings_to_try (detect_file_encoding L raw))
              \<and> decode L (case enc of None \<Rightarrow> ''utf-8'' | Some e \<Rightarrow> e) raw = Decoded text
              \<and> csv_table L text = Inr table)
            \<or> excel_table L raw = Inr table)
       \<and> rows df = tl table
       \<and> columns df = (case table of [] \<Rightarrow> [] | header # body \<Rightarrow> header)
       \<and> (\<forall>names. first_column_names df = Inr names \<longrightarrow>
             names = map (\<lambda>r. astype_str (first_cell r)) (tl table)
             \<and> length names = length table - 1)"
proof -
  from assms obtain raw where raw: "fs file_path = Some raw"
    by (auto simp: read_name_file_def split: option.splits)
  let ?cands = "encodings_to_try (detect_file_encoding L raw)"
  have names: "\<forall>names. first_column_names df = Inr names \<longrightarrow>
             names = map (\<lambda>r. astype_str (first_cell r)) (tl table)
             \<and> length names = length table - 1" if "rows df = tl table" for table
    using that by (auto dest: first_column_names_Inr)
  show ?thesis
  proof (cases "endswith (lower L file_path) (ustr ''.csv'')")
    case True
    with assms raw have "snd (csv_loop L raw ?cands) = Returned df"
      by (auto simp: read_name_file_def excel_or_fail_csv split: loop_exit.splits)
    from csv_loop_returned [OF this]
    have ne: "fst (csv_loop L raw ?cands) \<noteq> []"
      and r: "pd_read_csv L raw (last (fst (csv_loop L raw ?cands))) = Inr df" by simp_all
    from ne have "last (fst (csv_loop L raw ?cands)) \<in> set ?cands"
      using csv_loop_tried_subset [of L raw ?cands] last_in_set by blast
    moreover from pd_read_csv_Inr [OF r] obtain s header where
      "decode L (case last (fst (csv_loop L raw ?cands)) of None \<Rightarrow> ''utf-8'' | Some e \<Rightarrow> e) raw
         = Decoded s"
      "csv_table L s = Inr (header # rows df)" "columns df = header" by blast
    ultimately show ?thesis using raw names [of "columns df # rows df"]
      by (intro exI [of _ raw] exI [of _ "columns df # rows df"]) auto
  next
    case False
    with assms raw have "excel_or_fail L raw file_path = Inr df"
      by (simp add: read_name_file_def)
    then have "pd_read_excel L raw = Inr df"
      by (auto simp: excel_or_fail_def split: if_splits sum.splits)
    from pd_read_excel_Inr [OF this] obtain table where
      t: "excel_table L raw = Inr table" "rows df = tl table"
        "columns df = (case table of [] \<Rightarrow> [] | header # body \<Rightarrow> header)" by blast
    with raw names [of table] show ?thesis by blast
  qed
qed


lemma read_ab_csv:
  "fs (ustr ''n.csv'') = Some [65, 10, 66, 10] \<Longrightarrow>
   read_name_file test_lib fs (ustr ''n.csv'') = Inr \<lparr>columns = [Val [65]], rows = [[Val [66]]]\<rparr>"
  by (simp add: read_name_file_def detect_file_encoding_def encodings_to_try_def
      pd_read_csv_def decode_def test_lib_sel test_table_def lower_def endswith_def ustr_def)

text \<open>
  Claim C4, as stated, fails: of the two-row table with the cells A and B the reader
  returns the frame whose only data row is B, the row A being the column labels; the name
  list is B alone, and with a two-page source the run ends with a count mismatch of 1
  name and 2 pages.
\<close>

theorem first_row_as_data_counterexample:
  "csv_table test_lib [65, 10, 66, 10] = Inr [[Val [65]], [Val [66]]]
   \<and> read_name_file test_lib [ustr ''n.csv'' \<mapsto> [65, 10, 66, 10]] (ustr ''n.csv'')
        = Inr \<lparr>columns = [Val [65]], rows = [[Val [66]]]\<rparr>
   \<and> first_column_names \<lparr>columns = [Val [65]], rows = [[Val [66]]]\<rparr> = Inr [[66]]
   \<and> fst (start_split test_lib [ustr ''n.csv'' \<mapsto> [65, 10, 66, 10], ustr ''in.pdf'' \<mapsto> [1, 2]]
             (ustr ''in.pdf'') (ustr ''out'') (ustr ''n.csv''))
        = Failed (ValueError (CountMismatch 1 2))"
proof -
  have 1: "csv_table test_lib [65, 10, 66, 10] = Inr [[Val [65]], [Val [66]]]"
    by (simp add: test_lib_sel test_table_def ustr_def)
  have 2: "read_name_file test_lib [ustr ''n.csv'' \<mapsto> [65, 10, 66, 10]] (ustr ''n.csv'')
        = Inr \<lparr>columns = [Val [65]], rows = [[Val [66]]]\<rparr>"
    by (rule read_ab_csv) simp
  have 3: "first_column_names \<lparr>columns = [Val [65]], rows = [[Val [66]]]\<rparr> = Inr [[66]]"
    by (simp add: first_column_names_def)
  let ?fs = "[ustr ''n.csv'' \<mapsto> [65, 10, 66, 10], ustr ''in.pdf'' \<mapsto> [1, 2 :: 8 word]]"
  have r: "read_name_file test_lib ?fs (ustr ''n.csv'')
        = Inr \<lparr>columns = [Val [65]], rows = [[Val [66]]]\<rparr>"
    by (rule read_ab_csv) (simp add: ustr_def)
  have p: "endswith (lower test_lib (ustr ''in.pdf'')) (ustr ''.pdf'')"
    by (simp add: lower_def eval_simps)
  have s: "split_pdf test_lib ?fs (ustr ''in.pdf'') (ustr ''out'') [[66]]
             = (Some (ValueError (CountMismatch 1 2)), ?fs)"
    by (simp add: split_pdf_def test_lib_sel)
  have 4: "fst (start_split test_lib ?fs (ustr ''in.pdf'') (ustr ''out'') (ustr ''n.csv''))
        = Failed (ValueError (CountMismatch 1 2))"
    by (simp add: start_split_def r p 3 s df_empty_def) (simp add: ustr_def)
  from 1 2 3 4 show ?thesis by simp
qed

theorem first_row_is_header_witness:
  "read_name_file test_lib [ustr ''n.csv'' \<mapsto> [65, 10, 66, 10]] (ustr ''n.csv'')
        = Inr \<lparr>columns = [Val [65]], rows = [[Val [66]]]\<rparr>
   \<and> (\<exists>raw table. [ustr ''n.csv'' \<mapsto> [65, 10, 66, 10]] (ustr ''n.csv'') = Some raw
       \<and> ((\<exists>enc text. enc \<in> set (encodings_to_try (detect_file_encoding test_lib raw))
              \<and> decode test_lib (case enc of None \<Rightarrow> ''utf-8'' | Some e \<Rightarrow> e) raw = Decoded text
              \<and> csv_table test_lib text = Inr table)
            \<or> excel_table test_lib raw = Inr table)
       \<and> rows \<lparr>columns = [Val [65]], rows = [[Val [66]]]\<rparr> = tl table
       \<and> columns \<lparr>columns = [Val [65]], rows = [[Val [66]]]\<rparr>
            = (case table of [] \<Rightarrow> [] | header # body \<Rightarrow> header)
       \<and> (\<forall>names. first_column_names \<lparr>columns = [Val [65]], rows = [[Val [66]]]\<rparr> = Inr names \<longrightarrow>
             names = map (\<lambda>r. astype_str (first_cell r)) (tl table)
             \<and> length names = length table - 1))
   \<and> first_column_names \<lparr>columns = [Val [65]], rows = [[Val [66]]]\<rparr> = Inr [[66]]"
proof -
  have r: "read_name_file test_lib [ustr ''n.csv'' \<mapsto> [65, 10, 66, 10]] (ustr ''n.csv'')
        = Inr \<lparr>columns = [Val [65]], rows = [[Val [66]]]\<rparr>"
    by (rule read_ab_csv) simp
  have n: "first_column_names \<lparr>columns = [Val [65]], rows = [[Val [66]]]\<rparr> = Inr [[66]]"
    by (simp add: first_column_names_def)
  from r n first_row_is_header [OF r] show ?thesis by blast
qed


end
